theory Spec2Isabelle
  imports Complex_Main "HOL-Library.Word"
begin

section \<open>Choreograph: the Sequence class (src/choreograph/Sequence.hpp)\<close>

text \<open>
  A shallow embedding of \<^verbatim>\<open>template<typename T, typename PhraseT> class Sequence\<close>.
  Times (C++ \<^verbatim>\<open>float\<close>) are idealised as real numbers: rounding, infinities and
  NaN are not part of the model, except that the one place of the source which can
  produce a NaN from finite arguments (\<^verbatim>\<open>fmodf\<close> with a zero divisor) returns
  \<open>None\<close>. Indices of type \<^verbatim>\<open>size_t\<close> are 64-bit words. Mutating member
  functions take the sequence and return the updated sequence.
\<close>

subsection \<open>Phrase and easing functions (Phrase.hpp, not part of the sources)\<close>

type_synonym EaseFn = "real \<Rightarrow> real"

text \<open>
  Modelled from the spec: the class \<^verbatim>\<open>Phrase<T>\<close> of Phrase.hpp is missing. The spec
  describes it as the tuple (startValue, startTime, endValue, endTime, blendFn); the
  source of Sequence names the blend function slot \<^verbatim>\<open>motion\<close>.
\<close>

record 'a Phrase =
  start_value :: 'a
  start_time :: real
  end_value :: 'a
  end_time :: real
  motion :: EaseFn

text \<open>
  Modelled from the spec: \<^verbatim>\<open>Position<T>\<close> is missing; the spec gives it as the pair
  (value, time).
\<close>

type_synonym 'a Position = "'a \<times> real"

text \<open>
  Modelled from the spec: the constructor \<^verbatim>\<open>Phrase(start, end, easeFn)\<close> is missing;
  it stores the two positions and the blend function.
\<close>

definition mkPhrase :: "'a Position \<Rightarrow> 'a Position \<Rightarrow> EaseFn \<Rightarrow> 'a Phrase" where
  "mkPhrase start end' easeFn =
     \<lparr>start_value = fst start, start_time = snd start,
      end_value = fst end', end_time = snd end', motion = easeFn\<rparr>"

text \<open>
  Modelled from the spec: the accessor \<^verbatim>\<open>getStartValue\<close> of the missing class
  \<^verbatim>\<open>Phrase<T>\<close>.
\<close>

definition getStartValue :: "'a Phrase \<Rightarrow> 'a" where
  "getStartValue p = start_value p"

text \<open>
  Modelled from the spec: the accessor \<^verbatim>\<open>getEndValue\<close> of the missing class
  \<^verbatim>\<open>Phrase<T>\<close>.
\<close>

definition getEndValue :: "'a Phrase \<Rightarrow> 'a" where
  "getEndValue p = end_value p"

text \<open>
  Modelled from the spec: the accessor \<^verbatim>\<open>getStartTime\<close> of the missing class
  \<^verbatim>\<open>Phrase<T>\<close>.
\<close>

definition getStartTime :: "'a Phrase \<Rightarrow> real" where
  "getStartTime p = start_time p"

text \<open>
  Modelled from the spec: the accessor \<^verbatim>\<open>getEndTime\<close> of the missing class
  \<^verbatim>\<open>Phrase<T>\<close>.
\<close>

definition getEndTime :: "'a Phrase \<Rightarrow> real" where
  "getEndTime p = end_time p"

text \<open>
  Modelled from the spec: the span of a phrase of the missing class \<^verbatim>\<open>Phrase<T>\<close>,
  its end time minus its start time.
\<close>

definition Phrase_getDuration :: "'a Phrase \<Rightarrow> real" where
  "Phrase_getDuration p = end_time p - start_time p"

text \<open>
  Modelled from the spec: the mutator \<^verbatim>\<open>setStartValue\<close> of the missing class
  \<^verbatim>\<open>Phrase<T>\<close>, "to rebind startValue".
\<close>

definition setStartValue :: "'a \<Rightarrow> 'a Phrase \<Rightarrow> 'a Phrase" where
  "setStartValue v p = p\<lparr>start_value := v\<rparr>"

text \<open>
  Modelled from the spec: the mutator \<^verbatim>\<open>shiftStartTimeTo\<close> of the missing class
  \<^verbatim>\<open>Phrase<T>\<close>, "to shift startTime (preserving the phrase's own duration)".
\<close>

definition shiftStartTimeTo :: "real \<Rightarrow> 'a Phrase \<Rightarrow> 'a Phrase" where
  "shiftStartTimeTo t p =
     (let delta = t - start_time p
      in p\<lparr>start_time := t, end_time := end_time p + delta\<rparr>)"

text \<open>
  Modelled from the spec: the free function \<^verbatim>\<open>easeNone\<close> is missing. "none" is the
  identity on the normalised progress.
\<close>

definition easeNone :: EaseFn where
  "easeNone t = t"

text \<open>
  Modelled from the spec: the free function \<^verbatim>\<open>easeHold\<close> is missing. "hold" ignores
  the progress; a hold phrase starts and ends on the same value, so its value does not
  depend on the constant chosen here.
\<close>

definition easeHold :: EaseFn where
  "easeHold t = 0"

text \<open>
  Modelled from the spec: \<^verbatim>\<open>Phrase<float>::getValue\<close> is missing. The value at a time
  blends start and end value by the blend function applied to the normalised
  progress (for a phrase of non-zero span). Sequence is generic in the phrase type,
  so its evaluation below takes the phrase evaluation as a parameter; this
  definition is the instance used on concrete sequences of numbers.
\<close>

definition Phrase_getValue :: "real Phrase \<Rightarrow> real \<Rightarrow> real" where
  "Phrase_getValue p atTime =
     start_value p + (end_value p - start_value p) *
       motion p ((atTime - start_time p) / (end_time p - start_time p))"

subsection \<open>The C library function fmodf\<close>

definition truncate_real :: "real \<Rightarrow> int" where
  "truncate_real x = (if 0 \<le> x then \<lfloor>x\<rfloor> else \<lceil>x\<rceil>)"

text \<open>
  \<^verbatim>\<open>fmodf(x, y)\<close> is \<open>x - n * y\<close> where \<open>n\<close> is \<open>x / y\<close> truncated towards zero;
  for \<open>y = 0\<close> the result is a NaN, here \<open>None\<close>.
\<close>

definition fmodf :: "real \<Rightarrow> real \<Rightarrow> real option" where
  "fmodf x y = (if y = 0 then None else Some (x - of_int (truncate_real (x / y)) * y))"

subsection \<open>Sequence: data and construction\<close>

record 'a Sequence =
  phrases :: "'a Phrase list"
  initial_value :: 'a
  duration :: real

text \<open>\<^verbatim>\<open>explicit Sequence( const T &value )\<close>; \<^verbatim>\<open>_duration\<close> has the default 0.\<close>

definition Sequence_value :: "'a \<Rightarrow> 'a Sequence" where
  "Sequence_value v = \<lparr>phrases = [], initial_value = v, duration = 0\<rparr>"

text \<open>
  \<^verbatim>\<open>explicit Sequence( const std::vector<PhraseT> &phrases )\<close> has no definition here.
  Its first initializer is written \<^verbatim>\<open>_initial_value( phrases.begin().getStartValue() )\<close>:
  a member call on the iterator that \<^verbatim>\<open>begin()\<close> returns, where the first element is
  meant. An iterator has no such member, so the constructor is ill-formed wherever it
  is instantiated, and with it \<^verbatim>\<open>slice\<close>, which returns its result. The other two
  initializers are \<^verbatim>\<open>_phrases( phrases )\<close> and \<^verbatim>\<open>_duration( phrases.back().getEndTime() )\<close>.
\<close>

definition getDuration :: "'a Sequence \<Rightarrow> real" where
  "getDuration s = duration s"

definition endValue :: "'a Sequence \<Rightarrow> 'a" where
  "endValue s = (if phrases s = [] then initial_value s else getEndValue (last (phrases s)))"

definition initialValue :: "'a Sequence \<Rightarrow> 'a" where
  "initialValue s = initial_value s"

definition getPhraseCount :: "'a Sequence \<Rightarrow> nat" where
  "getPhraseCount s = length (phrases s)"

definition copy :: "'a Sequence \<Rightarrow> 'a Sequence" where
  "copy s = s"

subsection \<open>Sequence: composition\<close>

definition hold_value :: "'a \<Rightarrow> real \<Rightarrow> 'a Sequence \<Rightarrow> 'a Sequence" where
  "hold_value v d s =
     (let start = (v, duration s);
          end' = (v, duration s + d);
          phrase = mkPhrase start end' easeHold
      in s\<lparr>phrases := phrases s @ [phrase], duration := getEndTime phrase\<rparr>)"

definition hold :: "real \<Rightarrow> 'a Sequence \<Rightarrow> 'a Sequence" where
  "hold d s = hold_value (endValue s) d s"

definition wait :: "real \<Rightarrow> 'a Sequence \<Rightarrow> 'a Sequence" where
  "wait d s = hold d s"

definition rampTo :: "'a \<Rightarrow> real \<Rightarrow> EaseFn \<Rightarrow> 'a Sequence \<Rightarrow> 'a Sequence" where
  "rampTo v d easeFn s =
     (let start = (endValue s, duration s);
          end' = (v, duration s + d);
          phrase = mkPhrase start end' easeFn
      in s\<lparr>phrases := phrases s @ [phrase], duration := getEndTime phrase\<rparr>)"

text \<open>
  \<^verbatim>\<open>then( value, duration, args... )\<close> forwards \<open>args\<close> to the phrase constructor; for
  the default phrase type that is the blend function.
\<close>

definition then_value :: "'a \<Rightarrow> real \<Rightarrow> EaseFn \<Rightarrow> 'a Sequence \<Rightarrow> 'a Sequence" where
  "then_value v d easeFn s =
     (let start = (endValue s, duration s);
          end' = (v, duration s + d);
          phrase = mkPhrase start end' easeFn
      in s\<lparr>phrases := phrases s @ [phrase], duration := getEndTime phrase\<rparr>)"

definition then_phrase :: "'a Phrase \<Rightarrow> 'a Sequence \<Rightarrow> 'a Sequence" where
  "then_phrase p s =
     (let phrase = shiftStartTimeTo (duration s) (setStartValue (endValue s) p)
      in s\<lparr>duration := getEndTime phrase, phrases := phrases s @ [phrase]\<rparr>)"

definition set_value :: "'a \<Rightarrow> 'a Sequence \<Rightarrow> 'a Sequence" where
  "set_value v s =
     (if phrases s = [] then s\<lparr>initial_value := v\<rparr> else hold_value v 0 s)"

definition ease :: "EaseFn \<Rightarrow> 'a Sequence \<Rightarrow> 'a Sequence" where
  "ease easeFn s =
     (if phrases s \<noteq> []
      then s\<lparr>phrases := (phrases s)[length (phrases s) - 1 :=
                 (last (phrases s))\<lparr>motion := easeFn\<rparr>]\<rparr>
      else s)"

text \<open>
  The two assertions of \<^verbatim>\<open>slice( size_t begin, size_t size )\<close>, with \<^verbatim>\<open>size_t\<close> taken
  as 64 bit: the sum \<^verbatim>\<open>begin + size\<close> is computed in \<^verbatim>\<open>size_t\<close> and wraps around.
  The rest of \<^verbatim>\<open>slice\<close> hands the phrases from \<^verbatim>\<open>begin\<close> up to \<^verbatim>\<open>begin + size\<close> to the
  constructor from a phrase vector.
\<close>

definition slice_assertions :: "64 word \<Rightarrow> 64 word \<Rightarrow> 'a Sequence \<Rightarrow> bool" where
  "slice_assertions begin' size' s \<longleftrightarrow>
     begin' < of_nat (length (phrases s)) \<and>
     begin' + size' \<le> of_nat (length (phrases s))"

subsection \<open>Sequence: evaluation\<close>

text \<open>
  The while loop of \<^verbatim>\<open>getValue\<close>: \<open>Some\<close> is the early return from inside the loop,
  \<open>None\<close> is leaving the loop at \<^verbatim>\<open>_phrases.end()\<close>.
\<close>

fun scan_phrases :: "('a Phrase \<Rightarrow> real \<Rightarrow> 'b) \<Rightarrow> 'a Phrase list \<Rightarrow> real \<Rightarrow> 'b option" where
  "scan_phrases pv [] atTime = None"
| "scan_phrases pv (p # ps) atTime =
     (if getEndTime p > atTime then Some (pv p atTime) else scan_phrases pv ps atTime)"

text \<open>\<open>pv\<close> is \<^verbatim>\<open>PhraseT::getValue\<close>, the value-at-time function of the phrase type.\<close>

definition getValue :: "('a Phrase \<Rightarrow> real \<Rightarrow> 'a) \<Rightarrow> 'a Sequence \<Rightarrow> real \<Rightarrow> 'a" where
  "getValue pv s atTime =
     (if atTime < 0 then initial_value s
      else if atTime \<ge> duration s then endValue s
      else (case scan_phrases pv (phrases s) atTime of
              Some v \<Rightarrow> v
            | None \<Rightarrow> endValue s))"

definition wrapTime :: "'a Sequence \<Rightarrow> real \<Rightarrow> real \<Rightarrow> real option" where
  "wrapTime s t inflectionPoint =
     (if t > getDuration s
      then map_option (\<lambda>r. inflectionPoint + r) (fmodf t (getDuration s - inflectionPoint))
      else Some t)"

text \<open>
  A NaN time compares false with everything, so \<^verbatim>\<open>getValue\<close> passes both clamps
  and the whole loop and returns \<^verbatim>\<open>endValue()\<close>.
\<close>

definition getValueWrapped :: "('a Phrase \<Rightarrow> real \<Rightarrow> 'a) \<Rightarrow> 'a Sequence \<Rightarrow> real \<Rightarrow> real \<Rightarrow> 'a" where
  "getValueWrapped pv s t inflectionPoint =
     (case wrapTime s t inflectionPoint of
        Some t' \<Rightarrow> getValue pv s t'
      | None \<Rightarrow> endValue s)"

subsection \<open>Invariants and reachable sequences\<close>

text \<open>The duration invariant of the data model.\<close>

definition duration_inv :: "'a Sequence \<Rightarrow> bool" where
  "duration_inv s \<longleftrightarrow>
     duration s = (if phrases s = [] then 0 else getEndTime (last (phrases s)))"

text \<open>
  The sequences that the public interface can produce: the two constructors, and every
  member function that returns or updates a sequence. For the constructor from a
  phrase vector, and so for \<^verbatim>\<open>slice\<close>, rule \<open>by_phrases\<close> admits every sequence that
  stores a non-empty phrase vector and has the end time of its last phrase as
  duration, whatever its initial value.
\<close>

inductive reachable :: "'a Sequence \<Rightarrow> bool" where
  by_value: "reachable (Sequence_value v)"
| by_phrases: "ps \<noteq> [] \<Longrightarrow>
     reachable \<lparr>phrases = ps, initial_value = v, duration = getEndTime (last ps)\<rparr>"
| by_copy: "reachable s \<Longrightarrow> reachable (copy s)"
| by_set: "reachable s \<Longrightarrow> reachable (set_value v s)"
| by_wait: "reachable s \<Longrightarrow> reachable (wait d s)"
| by_hold: "reachable s \<Longrightarrow> reachable (hold d s)"
| by_hold_value: "reachable s \<Longrightarrow> reachable (hold_value v d s)"
| by_rampTo: "reachable s \<Longrightarrow> reachable (rampTo v d easeFn s)"
| by_then_value: "reachable s \<Longrightarrow> reachable (then_value v d easeFn s)"
| by_then_phrase: "reachable s \<Longrightarrow> reachable (then_phrase p s)"
| by_ease: "reachable s \<Longrightarrow> reachable (ease easeFn s)"

text \<open>
  \<open>appended_span s s' d\<close>: the sequence \<open>s'\<close> is \<open>s\<close> with one more phrase at the
  end, that phrase spans \<open>d\<close>, the duration has grown by \<open>d\<close>, and the duration
  invariant holds in \<open>s'\<close>.
\<close>

definition appended_span :: "'a Sequence \<Rightarrow> 'a Sequence \<Rightarrow> real \<Rightarrow> bool" where
  "appended_span s s' d \<longleftrightarrow>
     phrases s' = phrases s @ [last (phrases s')] \<and>
     Phrase_getDuration (last (phrases s')) = d \<and>
     getDuration s' = getDuration s + d \<and>
     duration_inv s'"

text \<open>Continuity of value: each phrase ends on the value the next one starts from.\<close>

definition value_continuous :: "'a Phrase list \<Rightarrow> bool" where
  "value_continuous ps \<longleftrightarrow>
     (\<forall>i. Suc i < length ps \<longrightarrow> getEndValue (ps ! i) = getStartValue (ps ! Suc i))"

text \<open>
  The chains of composition operations, starting from a seed value, in which
  \<^verbatim>\<open>hold( value, duration )\<close> and \<^verbatim>\<open>set\<close> are called on an empty phrase list or
  with the current end value.
\<close>

inductive continuing :: "'a Sequence \<Rightarrow> bool" where
  c_value: "continuing (Sequence_value v)"
| c_set: "continuing s \<Longrightarrow> phrases s = [] \<or> v = endValue s \<Longrightarrow> continuing (set_value v s)"
| c_wait: "continuing s \<Longrightarrow> continuing (wait d s)"
| c_hold: "continuing s \<Longrightarrow> continuing (hold d s)"
| c_hold_value: "continuing s \<Longrightarrow> phrases s = [] \<or> v = endValue s \<Longrightarrow>
     continuing (hold_value v d s)"
| c_rampTo: "continuing s \<Longrightarrow> continuing (rampTo v d easeFn s)"
| c_then_value: "continuing s \<Longrightarrow> continuing (then_value v d easeFn s)"
| c_then_phrase: "continuing s \<Longrightarrow> continuing (then_phrase p s)"
| c_ease: "continuing s \<Longrightarrow> continuing (ease easeFn s)"

text \<open>
  \<open>owns_instant s atTime i\<close>: phrase \<open>i\<close> is the first one, in insertion order, whose end
  time is strictly greater than \<open>atTime\<close>.
\<close>

definition owns_instant :: "'a Sequence \<Rightarrow> real \<Rightarrow> nat \<Rightarrow> bool" where
  "owns_instant s atTime i \<longleftrightarrow>
     i < length (phrases s) \<and> atTime < getEndTime (phrases s ! i) \<and>
     (\<forall>j<i. getEndTime (phrases s ! j) \<le> atTime)"

text \<open>Values and times of a phrase, without its blend function.\<close>

definition Phrase_shape :: "'a Phrase \<Rightarrow> 'a \<times> real \<times> 'a \<times> real" where
  "Phrase_shape p = (getStartValue p, getStartTime p, getEndValue p, getEndTime p)"

subsection \<open>Concrete sequences\<close>

text \<open>
  \<^verbatim>\<open>Sequence<float> s(0.0f); s.rampTo(10.0f, 2.0f); s.hold(1.0f); s.rampTo(0.0f, 2.0f);\<close>
\<close>

definition ramp_hold_ramp :: "real Sequence" where
  "ramp_hold_ramp = rampTo 0 2 easeNone (hold 1 (rampTo 10 2 easeNone (Sequence_value 0)))"

text \<open>\<^verbatim>\<open>Sequence<float> s(0.0f); s.rampTo(10.0f, -5.0f);\<close>\<close>

definition backwards_ramp :: "real Sequence" where
  "backwards_ramp = rampTo 10 (-5) easeNone (Sequence_value 0)"

text \<open>\<^verbatim>\<open>Sequence<float> s(3.0f); s.set(7.0f);\<close>\<close>

definition set_on_empty :: "real Sequence" where
  "set_on_empty = set_value 7 (Sequence_value 3)"

text \<open>\<^verbatim>\<open>Sequence<float> s(0.0f); s.rampTo(10.0f, 2.0f); s.hold(5.0f, 1.0f);\<close>\<close>

definition jump_by_hold :: "real Sequence" where
  "jump_by_hold = hold_value 5 1 (rampTo 10 2 easeNone (Sequence_value 0))"

text \<open>\<^verbatim>\<open>Sequence<float> s(0.0f); s.hold(5.0f, 1.0f); s.rampTo(10.0f, 2.0f);\<close>\<close>

definition hold_first :: "real Sequence" where
  "hold_first = rampTo 10 2 easeNone (hold_value 5 1 (Sequence_value 0))"

text \<open>\<^verbatim>\<open>Sequence<float> s(0.0f); s.rampTo(10.0f, 2.0f); s.set(7.0f); s.rampTo(0.0f, 2.0f);\<close>\<close>

definition ramp_set_ramp :: "real Sequence" where
  "ramp_set_ramp = rampTo 0 2 easeNone (set_value 7 (rampTo 10 2 easeNone (Sequence_value 0)))"

text \<open>
  \<^verbatim>\<open>Sequence<float> s(0.0f); s.rampTo(10.0f, 2.0f); s.rampTo(0.0f, -1.0f); s.rampTo(5.0f, 3.0f);\<close>
\<close>

definition ramp_back_ramp :: "real Sequence" where
  "ramp_back_ramp =
     rampTo 5 3 easeNone (rampTo 0 (-1) easeNone (rampTo 10 2 easeNone (Sequence_value 0)))"

section \<open>Properties\<close>

subsection \<open>Evaluating the concrete sequences\<close>

lemmas build_defs = rampTo_def hold_def hold_value_def Sequence_value_def then_value_def
  then_phrase_def set_value_def mkPhrase_def endValue_def getEndValue_def getEndTime_def
  getStartValue_def getStartTime_def setStartValue_def shiftStartTimeTo_def
  getDuration_def initialValue_def getPhraseCount_def Let_def

lemma ramp_hold_ramp_phrases:
  "phrases ramp_hold_ramp =
     [\<lparr>start_value = 0, start_time = 0, end_value = 10, end_time = 2, motion = easeNone\<rparr>,
      \<lparr>start_value = 10, start_time = 2, end_value = 10, end_time = 3, motion = easeHold\<rparr>,
      \<lparr>start_value = 10, start_time = 3, end_value = 0, end_time = 5, motion = easeNone\<rparr>]"
  by (simp add: ramp_hold_ramp_def build_defs)

lemma ramp_hold_ramp_duration: "getDuration ramp_hold_ramp = 5"
  by (simp add: ramp_hold_ramp_def build_defs)

lemma ramp_hold_ramp_inv: "duration_inv ramp_hold_ramp"
  by (simp add: duration_inv_def ramp_hold_ramp_def build_defs)

text \<open>
  The 5-second scenario: the midpoint of the first ramp, inside the hold, the midpoint
  of the last ramp, past the end, and the time 6 wrapped around to 1.
\<close>

lemma ramp_hold_ramp_scenario:
  "getDuration ramp_hold_ramp = 5 \<and>
   getValue Phrase_getValue ramp_hold_ramp 1 = 5 \<and>
   getValue Phrase_getValue ramp_hold_ramp 2.5 = 10 \<and>
   getValue Phrase_getValue ramp_hold_ramp 4 = 5 \<and>
   getValue Phrase_getValue ramp_hold_ramp 10 = 0 \<and>
   getValueWrapped Phrase_getValue ramp_hold_ramp 6 0 = 5"
proof -
  have d: "duration ramp_hold_ramp = 5"
    using ramp_hold_ramp_duration by (simp add: getDuration_def)
  have e: "endValue ramp_hold_ramp = 0"
    by (simp add: endValue_def ramp_hold_ramp_phrases getEndValue_def)
  have w: "wrapTime ramp_hold_ramp 6 0 = Some 1"
    by (simp add: wrapTime_def ramp_hold_ramp_duration fmodf_def truncate_real_def)
  show ?thesis
    by (simp add: ramp_hold_ramp_duration getValueWrapped_def w getValue_def d e
        ramp_hold_ramp_phrases getEndTime_def Phrase_getValue_def easeNone_def easeHold_def)
qed

subsection \<open>Evaluation: clamping\<close>

text \<open>
  Claim C1, as the code has it. Before time 0 \<^verbatim>\<open>getValue\<close> returns the initial value.
  At a time that is not negative and is at or past the duration it returns
  \<^verbatim>\<open>endValue()\<close>; this covers every time at or past the duration whenever the duration
  is not negative. The first test wins where both apply. A sequence without phrases
  returns its initial value at every time.
\<close>

theorem getValue_clamp:
  "(atTime < 0 \<longrightarrow> getValue pv s atTime = initialValue s) \<and>
   (0 \<le> atTime \<and> getDuration s \<le> atTime \<longrightarrow> getValue pv s atTime = endValue s) \<and>
   (0 \<le> getDuration s \<and> getDuration s \<le> atTime \<longrightarrow> getValue pv s atTime = endValue s) \<and>
   (phrases s = [] \<longrightarrow> getValue pv s atTime = initialValue s)"
  by (auto simp: getValue_def initialValue_def getDuration_def endValue_def)

theorem getValue_clamp_witness:
  "getValue Phrase_getValue ramp_hold_ramp (-1) = 0 \<and>
   getValue Phrase_getValue ramp_hold_ramp 10 = 0 \<and>
   getValue Phrase_getValue (Sequence_value 3) 1 = 3"
  using getValue_clamp [of "-1" Phrase_getValue ramp_hold_ramp]
    getValue_clamp [of 10 Phrase_getValue ramp_hold_ramp]
    getValue_clamp [of 1 Phrase_getValue "Sequence_value 3"]
  by (simp add: ramp_hold_ramp_duration)
    (simp add: ramp_hold_ramp_def build_defs)

text \<open>
  A ramp of negative duration ends before time 0. The time \<open>-1\<close> is then past the
  duration and negative at once, and the value is the initial value 0, not the end
  value 10.
\<close>

theorem getValue_clamp_counterexample:
  "\<not> ((-1 :: real) \<ge> getDuration backwards_ramp \<longrightarrow>
      getValue Phrase_getValue backwards_ramp (-1) = endValue backwards_ramp)"
  by (simp add: backwards_ramp_def getValue_def build_defs)

subsection \<open>Evaluation: the scan over the phrases\<close>

lemma scan_phrases_last:
  "ps \<noteq> [] \<Longrightarrow> atTime < getEndTime (last ps) \<Longrightarrow> scan_phrases pv ps atTime \<noteq> None"
  by (induction ps) (auto split: if_splits)

lemma scan_phrases_first:
  "scan_phrases pv ps atTime = Some v \<Longrightarrow>
     \<exists>i<length ps. atTime < getEndTime (ps ! i)
        \<and> (\<forall>j<i. getEndTime (ps ! j) \<le> atTime) \<and> v = pv (ps ! i) atTime"
proof (induction ps)
  case Nil
  then show ?case by simp
next
  case (Cons p ps)
  show ?case
  proof (cases "atTime < getEndTime p")
    case True
    with Cons.prems have "v = pv p atTime" by simp
    with True show ?thesis by (intro exI [of _ 0]) simp
  next
    case False
    with Cons.prems have "scan_phrases pv ps atTime = Some v" by simp
    from Cons.IH [OF this] obtain i where i: "i < length ps" "atTime < getEndTime (ps ! i)"
      "\<forall>j<i. getEndTime (ps ! j) \<le> atTime" "v = pv (ps ! i) atTime" by blast
    have "\<forall>j<Suc i. getEndTime ((p # ps) ! j) \<le> atTime"
    proof (intro allI impI)
      fix j assume "j < Suc i"
      then show "getEndTime ((p # ps) ! j) \<le> atTime"
        using False i(3) by (cases j) auto
    qed
    with i show ?thesis by (intro exI [of _ "Suc i"]) simp
  qed
qed

text \<open>
  Claim C2, as the code has it. In a sequence with at least one phrase whose duration
  is the end time of its last phrase, at a time from 0 up to but excluding the
  duration, \<^verbatim>\<open>getValue\<close> returns the value at that time of the first phrase, in
  insertion order, whose end time is strictly greater than the time. A phrase that
  ends exactly at the time is therefore never the one evaluated. The phrase after it
  is the one evaluated when its own end time is strictly greater than the time and
  the end times do not decrease along the list.
\<close>

theorem getValue_first_phrase_ending_later:
  assumes "duration_inv s" and "phrases s \<noteq> []"
    and "0 \<le> atTime" and "atTime < getDuration s"
  shows "\<exists>i. owns_instant s atTime i \<and> getValue pv s atTime = pv (phrases s ! i) atTime \<and>
           (\<forall>k<length (phrases s). getEndTime (phrases s ! k) = atTime \<longrightarrow> k \<noteq> i) \<and>
           (\<forall>k. Suc k < length (phrases s) \<and> sorted (map getEndTime (phrases s)) \<and>
                getEndTime (phrases s ! k) = atTime \<and>
                atTime < getEndTime (phrases s ! Suc k) \<longrightarrow> i = Suc k)"
proof -
  from assms have "atTime < getEndTime (last (phrases s))"
    by (simp add: duration_inv_def getDuration_def)
  with assms(2) have "scan_phrases pv (phrases s) atTime \<noteq> None"
    by (rule scan_phrases_last)
  then obtain v where v: "scan_phrases pv (phrases s) atTime = Some v" by blast
  from scan_phrases_first [OF v] obtain i where i: "i < length (phrases s)"
    "atTime < getEndTime (phrases s ! i)" "\<forall>j<i. getEndTime (phrases s ! j) \<le> atTime"
    "v = pv (phrases s ! i) atTime" by blast
  have own: "owns_instant s atTime i"
    using i by (simp add: owns_instant_def)
  have val: "getValue pv s atTime = pv (phrases s ! i) atTime"
    using assms(3,4) v i(4) by (simp add: getValue_def getDuration_def)
  have excl: "\<forall>k<length (phrases s). getEndTime (phrases s ! k) = atTime \<longrightarrow> k \<noteq> i"
    using i(2) by auto
  have bnd: "\<forall>k. Suc k < length (phrases s) \<and> sorted (map getEndTime (phrases s)) \<and>
                getEndTime (phrases s ! k) = atTime \<and>
                atTime < getEndTime (phrases s ! Suc k) \<longrightarrow> i = Suc k"
  proof (intro allI impI, elim conjE)
    fix k
    assume k: "Suc k < length (phrases s)" and srt: "sorted (map getEndTime (phrases s))"
      and kt: "getEndTime (phrases s ! k) = atTime"
      and sk: "atTime < getEndTime (phrases s ! Suc k)"
    have "\<not> i \<le> k"
    proof
      assume "i \<le> k"
      with srt k have "map getEndTime (phrases s) ! i \<le> map getEndTime (phrases s) ! k"
        by (intro sorted_nth_mono) simp_all
      with k i(1) kt i(2) show False by simp
    qed
    moreover have "\<not> Suc k < i"
      using i(3) sk by auto
    ultimately show "i = Suc k" by simp
  qed
  from own val excl bnd show ?thesis by blast
qed

text \<open>
  At time 2 the first ramp ends and the hold starts: the hold, phrase 1, is evaluated.
\<close>

theorem getValue_first_phrase_ending_later_witness:
  "owns_instant ramp_hold_ramp 2 1 \<and>
   getValue Phrase_getValue ramp_hold_ramp 2 = Phrase_getValue (phrases ramp_hold_ramp ! 1) 2 \<and>
   getValue Phrase_getValue ramp_hold_ramp 2 = 10"
proof -
  have ne: "phrases ramp_hold_ramp \<noteq> []"
    by (simp add: ramp_hold_ramp_phrases)
  have t0: "(0::real) \<le> 2" by simp
  have t1: "(2::real) < getDuration ramp_hold_ramp"
    by (simp add: ramp_hold_ramp_duration)
  from getValue_first_phrase_ending_later [OF ramp_hold_ramp_inv ne t0 t1, of Phrase_getValue]
  obtain i where own: "owns_instant ramp_hold_ramp 2 i"
    and val: "getValue Phrase_getValue ramp_hold_ramp 2 =
        Phrase_getValue (phrases ramp_hold_ramp ! i) 2"
    and bnd: "\<forall>k. Suc k < length (phrases ramp_hold_ramp) \<and>
        sorted (map getEndTime (phrases ramp_hold_ramp)) \<and>
        getEndTime (phrases ramp_hold_ramp ! k) = 2 \<and>
        2 < getEndTime (phrases ramp_hold_ramp ! Suc k) \<longrightarrow> i = Suc k"
    by blast
  from bnd [rule_format, of 0] have i: "i = 1"
    by (simp add: ramp_hold_ramp_phrases getEndTime_def)
  have "Phrase_getValue (phrases ramp_hold_ramp ! 1) 2 = 10"
    by (simp add: ramp_hold_ramp_phrases Phrase_getValue_def)
  with own val i show ?thesis by simp
qed

text \<open>
  \<^verbatim>\<open>set\<close> on a sequence with phrases appends a phrase of span 0. After a ramp that ends
  at time 2, this phrase starts and ends at time 2, and the loop passes over it: at
  time 2 it returns from the ramp that follows, phrase 2, not from phrase 1, the
  phrase that starts where phrase 0 ends.
\<close>

theorem getValue_first_phrase_ending_later_counterexample:
  "getEndTime (phrases ramp_set_ramp ! 0) = 2 \<and> getStartTime (phrases ramp_set_ramp ! 1) = 2 \<and>
   (0::real) \<le> 2 \<and> 2 < getDuration ramp_set_ramp \<and>
   \<not> owns_instant ramp_set_ramp 2 1 \<and>
   scan_phrases (\<lambda>p t. p) (phrases ramp_set_ramp) 2 = Some (phrases ramp_set_ramp ! 2) \<and>
   phrases ramp_set_ramp ! 2 \<noteq> phrases ramp_set_ramp ! 1"
  by (simp add: ramp_set_ramp_def owns_instant_def build_defs)

text \<open>
  A ramp of negative duration ends before the ramp in front of it. At time 2, where
  phrase 0 ends and phrase 1 starts, the loop returns from phrase 2.
\<close>

lemma ramp_back_ramp_boundary:
  "getEndTime (phrases ramp_back_ramp ! 0) = 2 \<and> getStartTime (phrases ramp_back_ramp ! 1) = 2 \<and>
   2 < getDuration ramp_back_ramp \<and>
   scan_phrases (\<lambda>p t. p) (phrases ramp_back_ramp) 2 = Some (phrases ramp_back_ramp ! 2) \<and>
   phrases ramp_back_ramp ! 2 \<noteq> phrases ramp_back_ramp ! 1"
  by (simp add: ramp_back_ramp_def build_defs)

text \<open>
  Claim C10. Under the duration invariant, at a time from 0 up to but excluding the
  duration, the loop of \<^verbatim>\<open>getValue\<close> returns from inside: it returns the value of a
  phrase whose end time is strictly greater than the time, the first such phrase of
  the list, so the return after the loop is not reached.
\<close>

theorem getValue_scan_finds_phrase:
  assumes "duration_inv s" and "0 \<le> atTime" and "atTime < getDuration s"
  shows "\<exists>i. owns_instant s atTime i \<and>
           scan_phrases pv (phrases s) atTime = Some (pv (phrases s ! i) atTime)"
proof -
  from assms have ne: "phrases s \<noteq> []"
    by (auto simp: duration_inv_def getDuration_def split: if_splits)
  with assms have "atTime < getEndTime (last (phrases s))"
    by (simp add: duration_inv_def getDuration_def)
  with ne have "scan_phrases pv (phrases s) atTime \<noteq> None"
    by (rule scan_phrases_last)
  then obtain v where v: "scan_phrases pv (phrases s) atTime = Some v" by blast
  from scan_phrases_first [OF v] obtain i where "i < length (phrases s)"
    "atTime < getEndTime (phrases s ! i)" "\<forall>j<i. getEndTime (phrases s ! j) \<le> atTime"
    "v = pv (phrases s ! i) atTime" by blast
  with v show ?thesis by (auto simp: owns_instant_def)
qed

text \<open>At time 4 of the 5-second scenario the loop returns from phrase 2, which ends at 5.\<close>

theorem getValue_scan_finds_phrase_witness:
  "owns_instant ramp_hold_ramp 4 2 \<and>
   scan_phrases Phrase_getValue (phrases ramp_hold_ramp) 4 =
     Some (Phrase_getValue (phrases ramp_hold_ramp ! 2) 4)"
proof -
  have t0: "(0::real) \<le> 4" by simp
  have t1: "(4::real) < getDuration ramp_hold_ramp"
    by (simp add: ramp_hold_ramp_duration)
  from getValue_scan_finds_phrase [OF ramp_hold_ramp_inv t0 t1, of Phrase_getValue]
  obtain i where own: "owns_instant ramp_hold_ramp 4 i"
    and ret: "scan_phrases Phrase_getValue (phrases ramp_hold_ramp) 4 =
        Some (Phrase_getValue (phrases ramp_hold_ramp ! i) 4)"
    by blast
  from own have "i < 3" and later: "4 < getEndTime (phrases ramp_hold_ramp ! i)"
    by (simp_all add: owns_instant_def ramp_hold_ramp_phrases)
  then have "i = 0 \<or> i = 1 \<or> i = 2" by auto
  with later have "i = 2"
    by (auto simp: ramp_hold_ramp_phrases getEndTime_def)
  with own ret show ?thesis by simp
qed

subsection \<open>Wrapping the time\<close>

lemma fmodf_range:
  assumes "0 \<le> x" and "0 < y"
  shows "\<exists>r. fmodf x y = Some r \<and> 0 \<le> r \<and> r < y"
proof -
  let ?n = "\<lfloor>x / y\<rfloor>"
  from assms have q: "0 \<le> x / y" by simp
  have lo: "of_int ?n * y \<le> x"
  proof -
    have "of_int ?n \<le> x / y" by (rule of_int_floor_le)
    with assms(2) have "of_int ?n * y \<le> (x / y) * y"
      by (intro mult_right_mono) simp_all
    with assms(2) show ?thesis by simp
  qed
  have hi: "x < (of_int ?n + 1) * y"
  proof -
    have "x / y < of_int ?n + 1" by linarith
    with assms(2) have "(x / y) * y < (of_int ?n + 1) * y"
      by (intro mult_strict_right_mono) simp_all
    with assms(2) show ?thesis by simp
  qed
  from hi have "x - of_int ?n * y < y" by (simp add: algebra_simps)
  with lo q assms(2) show ?thesis
    by (simp add: fmodf_def truncate_real_def)
qed

text \<open>
  Claim C3, as the code has it. \<^verbatim>\<open>wrapTime\<close> returns the time unchanged when it is at
  most the duration. When it is greater, the result is the inflection point plus
  \<^verbatim>\<open>fmodf\<close> of the time by the duration minus the inflection point. When moreover the
  time is not negative and the inflection point lies before the duration, that result
  is at least the inflection point and less than the duration.
\<close>

theorem wrapTime_range:
  "(t \<le> getDuration s \<longrightarrow> wrapTime s t ip = Some t) \<and>
   (getDuration s < t \<longrightarrow>
      wrapTime s t ip = map_option (\<lambda>r. ip + r) (fmodf t (getDuration s - ip))) \<and>
   (getDuration s < t \<and> 0 \<le> t \<and> ip < getDuration s \<longrightarrow>
      (\<exists>r. wrapTime s t ip = Some r \<and> ip \<le> r \<and> r < getDuration s))"
proof (intro conjI impI)
  assume "t \<le> getDuration s"
  then show "wrapTime s t ip = Some t" by (simp add: wrapTime_def)
next
  assume "getDuration s < t"
  then show "wrapTime s t ip = map_option (\<lambda>r. ip + r) (fmodf t (getDuration s - ip))"
    by (simp add: wrapTime_def)
next
  assume a: "getDuration s < t \<and> 0 \<le> t \<and> ip < getDuration s"
  then have "0 \<le> t" and "0 < getDuration s - ip" by simp_all
  from fmodf_range [OF this] obtain r
    where r: "fmodf t (getDuration s - ip) = Some r" "0 \<le> r" "r < getDuration s - ip"
    by blast
  with a show "\<exists>r. wrapTime s t ip = Some r \<and> ip \<le> r \<and> r < getDuration s"
    by (simp add: wrapTime_def)
qed

theorem wrapTime_range_witness:
  "wrapTime ramp_hold_ramp 4 0 = Some 4 \<and> wrapTime ramp_hold_ramp 6 0 = Some 1 \<and>
   (\<exists>r. wrapTime ramp_hold_ramp 6 0 = Some r \<and> 0 \<le> r \<and> r < getDuration ramp_hold_ramp)"
  using wrapTime_range [of 4 ramp_hold_ramp 0] wrapTime_range [of 6 ramp_hold_ramp 0]
  by (simp add: ramp_hold_ramp_duration fmodf_def truncate_real_def)

text \<open>
  With the inflection point 10 after the duration 5, the time 6 wraps to 11, which is
  outside the interval from the inflection point to the duration.
\<close>

theorem wrapTime_range_counterexample:
  "getDuration ramp_hold_ramp < 6 \<and> wrapTime ramp_hold_ramp 6 10 = Some 11 \<and>
   \<not> ((10::real) \<le> 11 \<and> (11::real) \<le> getDuration ramp_hold_ramp)"
  by (simp add: ramp_hold_ramp_duration wrapTime_def fmodf_def truncate_real_def)

text \<open>
  With the inflection point on the duration the divisor is 0 and there is no result:
  here on a sequence without phrases, with the default inflection point.
\<close>

lemma wrapTime_zero_span: "wrapTime (Sequence_value (3::real)) 1 0 = None"
  by (simp add: wrapTime_def fmodf_def Sequence_value_def getDuration_def)

subsection \<open>The duration invariant\<close>

lemma appended_span_hold_value: "appended_span s (hold_value v d s) d"
  by (simp add: appended_span_def hold_value_def mkPhrase_def getEndTime_def
      Phrase_getDuration_def getDuration_def duration_inv_def Let_def)

lemma appended_span_rampTo: "appended_span s (rampTo v d easeFn s) d"
  by (simp add: appended_span_def rampTo_def mkPhrase_def getEndTime_def
      Phrase_getDuration_def getDuration_def duration_inv_def Let_def)

lemma appended_span_then_value: "appended_span s (then_value v d easeFn s) d"
  by (simp add: appended_span_def then_value_def mkPhrase_def getEndTime_def
      Phrase_getDuration_def getDuration_def duration_inv_def Let_def)

lemma appended_span_then_phrase: "appended_span s (then_phrase p s) (Phrase_getDuration p)"
  by (simp add: appended_span_def then_phrase_def shiftStartTimeTo_def setStartValue_def
      getEndTime_def Phrase_getDuration_def getDuration_def duration_inv_def Let_def)

lemma appended_span_inv: "appended_span s s' d \<Longrightarrow> duration_inv s'"
  by (simp add: appended_span_def)

lemma duration_inv_set_value: "duration_inv s \<Longrightarrow> duration_inv (set_value v s)"
  using appended_span_hold_value [of s v 0]
  by (auto simp: set_value_def duration_inv_def appended_span_def)

lemma duration_inv_ease: "duration_inv s \<Longrightarrow> duration_inv (ease easeFn s)"
  by (auto simp: ease_def duration_inv_def getEndTime_def last_conv_nth)

lemma reachable_duration_inv: "reachable s \<Longrightarrow> duration_inv s"
proof (induction s rule: reachable.induct)
  case (by_value v)
  show ?case by (simp add: duration_inv_def Sequence_value_def)
next
  case (by_phrases ps v)
  then show ?case by (simp add: duration_inv_def)
next
  case (by_copy s)
  from by_copy.IH show ?case by (simp add: copy_def)
next
  case (by_set s v)
  from by_set.IH show ?case by (rule duration_inv_set_value)
next
  case (by_wait s d)
  show ?case unfolding wait_def hold_def by (rule appended_span_inv [OF appended_span_hold_value])
next
  case (by_hold s d)
  show ?case unfolding hold_def by (rule appended_span_inv [OF appended_span_hold_value])
next
  case (by_hold_value s v d)
  show ?case by (rule appended_span_inv [OF appended_span_hold_value])
next
  case (by_rampTo s v d easeFn)
  show ?case by (rule appended_span_inv [OF appended_span_rampTo])
next
  case (by_then_value s v d easeFn)
  show ?case by (rule appended_span_inv [OF appended_span_then_value])
next
  case (by_then_phrase s p)
  show ?case by (rule appended_span_inv [OF appended_span_then_phrase])
next
  case (by_ease s easeFn)
  from by_ease.IH show ?case by (rule duration_inv_ease)
qed

text \<open>
  Claim C4. Every sequence that the constructors and member functions produce has its
  duration equal to the end time of its last phrase, or to 0 without phrases. Each of
  \<^verbatim>\<open>hold\<close>, \<^verbatim>\<open>wait\<close>, \<^verbatim>\<open>rampTo\<close>, \<^verbatim>\<open>then\<close>, and \<^verbatim>\<open>set\<close> on a sequence with phrases,
  appends one phrase; with \<open>d\<close> the span of that phrase, the duration after the call is
  the duration before it plus \<open>d\<close>, and the invariant holds right after the call.
  \<^verbatim>\<open>set\<close> on a sequence without phrases and \<^verbatim>\<open>ease\<close> leave the duration as it is.
\<close>

theorem duration_invariant_and_additivity:
  assumes "reachable s"
  shows "duration_inv s \<and>
     appended_span s (hold d s) d \<and>
     appended_span s (wait d s) d \<and>
     appended_span s (hold_value v d s) d \<and>
     appended_span s (rampTo v d easeFn s) d \<and>
     appended_span s (then_value v d easeFn s) d \<and>
     appended_span s (then_phrase p s) (Phrase_getDuration p) \<and>
     (phrases s \<noteq> [] \<longrightarrow> appended_span s (set_value v s) 0) \<and>
     (phrases s = [] \<longrightarrow> getDuration (set_value v s) = getDuration s) \<and>
     getDuration (ease easeFn s) = getDuration s"
proof -
  have "duration_inv s" using assms by (rule reachable_duration_inv)
  moreover have "appended_span s (hold d s) d"
    unfolding hold_def by (rule appended_span_hold_value)
  moreover have "appended_span s (wait d s) d"
    unfolding wait_def hold_def by (rule appended_span_hold_value)
  moreover have "phrases s \<noteq> [] \<longrightarrow> appended_span s (set_value v s) 0"
    by (simp add: set_value_def appended_span_hold_value)
  moreover have "phrases s = [] \<longrightarrow> getDuration (set_value v s) = getDuration s"
    by (simp add: set_value_def getDuration_def)
  moreover have "getDuration (ease easeFn s) = getDuration s"
    by (simp add: ease_def getDuration_def)
  ultimately show ?thesis
    by (simp add: appended_span_hold_value appended_span_rampTo appended_span_then_value
        appended_span_then_phrase)
qed

theorem duration_invariant_and_additivity_witness:
  "getDuration ramp_hold_ramp = 5 \<and>
   getEndTime (last (phrases ramp_hold_ramp)) = 5 \<and>
   getDuration (rampTo 7 2 easeNone ramp_hold_ramp) = 7 \<and>
   getDuration (set_value 7 ramp_hold_ramp) = 5"
proof -
  have r: "reachable ramp_hold_ramp"
    unfolding ramp_hold_ramp_def by (intro by_rampTo by_hold by_value)
  have ne: "phrases ramp_hold_ramp \<noteq> []"
    by (simp add: ramp_hold_ramp_phrases)
  have e: "getEndTime (last (phrases ramp_hold_ramp)) = 5"
    by (simp add: ramp_hold_ramp_phrases getEndTime_def)
  from duration_invariant_and_additivity
      [OF r, where d = 2 and v = 7 and easeFn = easeNone and p = "last (phrases ramp_hold_ramp)"]
  have inv: "duration_inv ramp_hold_ramp"
    and ramp: "appended_span ramp_hold_ramp (rampTo 7 2 easeNone ramp_hold_ramp) 2"
    and st: "phrases ramp_hold_ramp \<noteq> [] \<longrightarrow>
               appended_span ramp_hold_ramp (set_value 7 ramp_hold_ramp) 0"
    by blast+
  from inv ne e have d: "getDuration ramp_hold_ramp = 5"
    by (simp add: duration_inv_def getDuration_def)
  from ramp st ne d e show ?thesis
    by (simp add: appended_span_def)
qed

subsection \<open>Continuity of value\<close>

lemma value_continuous_snoc:
  assumes "value_continuous ps" and "ps = [] \<or> getEndValue (last ps) = getStartValue p"
  shows "value_continuous (ps @ [p])"
  unfolding value_continuous_def
proof (intro allI impI)
  fix i assume i: "Suc i < length (ps @ [p])"
  show "getEndValue ((ps @ [p]) ! i) = getStartValue ((ps @ [p]) ! Suc i)"
  proof (cases "Suc i < length ps")
    case True
    with assms(1) show ?thesis by (simp add: value_continuous_def nth_append)
  next
    case False
    with i have eq: "Suc i = length ps" by simp
    then have ne: "ps \<noteq> []" by auto
    from eq have "i = length ps - 1" by simp
    with ne have "last ps = ps ! i" by (simp add: last_conv_nth)
    with assms(2) ne have "getEndValue (ps ! i) = getStartValue p" by simp
    with eq show ?thesis by (simp add: nth_append)
  qed
qed

lemma value_continuous_from_end:
  assumes "value_continuous (phrases s)" and "getStartValue p = endValue s"
  shows "value_continuous (phrases s @ [p])"
proof (rule value_continuous_snoc [OF assms(1)])
  show "phrases s = [] \<or> getEndValue (last (phrases s)) = getStartValue p"
    using assms(2) by (cases "phrases s = []") (simp_all add: endValue_def)
qed

lemma value_continuous_hold_value:
  assumes "value_continuous (phrases s)" and "phrases s = [] \<or> v = endValue s"
  shows "value_continuous (phrases (hold_value v d s))"
proof (cases "phrases s = []")
  case True
  then show ?thesis
    by (simp add: hold_value_def Let_def value_continuous_def)
next
  case False
  let ?p = "mkPhrase (v, duration s) (v, duration s + d) easeHold"
  from False assms(2) have "getStartValue ?p = endValue s"
    by (simp add: mkPhrase_def getStartValue_def)
  from value_continuous_from_end [OF assms(1) this]
  show ?thesis by (simp add: hold_value_def Let_def)
qed

lemma value_continuous_hold:
  "value_continuous (phrases s) \<Longrightarrow> value_continuous (phrases (hold d s))"
  unfolding hold_def by (rule value_continuous_hold_value) simp_all

lemma value_continuous_rampTo:
  assumes "value_continuous (phrases s)"
  shows "value_continuous (phrases (rampTo v d easeFn s))"
proof -
  let ?p = "mkPhrase (endValue s, duration s) (v, duration s + d) easeFn"
  have "getStartValue ?p = endValue s"
    by (simp add: mkPhrase_def getStartValue_def)
  from value_continuous_from_end [OF assms this]
  show ?thesis by (simp add: rampTo_def Let_def)
qed

lemma value_continuous_then_value:
  assumes "value_continuous (phrases s)"
  shows "value_continuous (phrases (then_value v d easeFn s))"
proof -
  let ?p = "mkPhrase (endValue s, duration s) (v, duration s + d) easeFn"
  have "getStartValue ?p = endValue s"
    by (simp add: mkPhrase_def getStartValue_def)
  from value_continuous_from_end [OF assms this]
  show ?thesis by (simp add: then_value_def Let_def)
qed

lemma value_continuous_then_phrase:
  assumes "value_continuous (phrases s)"
  shows "value_continuous (phrases (then_phrase p s))"
proof -
  let ?p = "shiftStartTimeTo (duration s) (setStartValue (endValue s) p)"
  have "getStartValue ?p = endValue s"
    by (simp add: shiftStartTimeTo_def setStartValue_def getStartValue_def Let_def)
  from value_continuous_from_end [OF assms this]
  show ?thesis by (simp add: then_phrase_def Let_def)
qed

lemma ease_nth_values:
  assumes "i < length (phrases s)"
  shows "getEndValue (phrases (ease easeFn s) ! i) = getEndValue (phrases s ! i) \<and>
         getStartValue (phrases (ease easeFn s) ! i) = getStartValue (phrases s ! i)"
proof (cases "i = length (phrases s) - 1")
  case True
  with assms show ?thesis
    by (simp add: ease_def last_conv_nth getEndValue_def getStartValue_def)
next
  case False
  with assms show ?thesis
    by (simp add: ease_def)
qed

lemma ease_length: "length (phrases (ease easeFn s)) = length (phrases s)"
  by (simp add: ease_def)

lemma value_continuous_ease:
  assumes "value_continuous (phrases s)"
  shows "value_continuous (phrases (ease easeFn s))"
  unfolding value_continuous_def
proof (intro allI impI)
  fix i assume "Suc i < length (phrases (ease easeFn s))"
  then have i: "Suc i < length (phrases s)" by (simp add: ease_length)
  then have "i < length (phrases s)" by simp
  from ease_nth_values [OF this] ease_nth_values [OF i] assms i
  show "getEndValue (phrases (ease easeFn s) ! i) = getStartValue (phrases (ease easeFn s) ! Suc i)"
    by (simp add: value_continuous_def)
qed

lemma continuing_value_continuous: "continuing s \<Longrightarrow> value_continuous (phrases s)"
proof (induction s rule: continuing.induct)
  case (c_value v)
  show ?case by (simp add: value_continuous_def Sequence_value_def)
next
  case (c_set s v)
  show ?case
  proof (cases "phrases s = []")
    case True
    then show ?thesis by (simp add: set_value_def value_continuous_def)
  next
    case False
    with c_set.IH c_set.hyps(2) show ?thesis
      by (simp add: set_value_def value_continuous_hold_value)
  qed
next
  case (c_wait s d)
  from c_wait.IH show ?case by (simp add: wait_def value_continuous_hold)
next
  case (c_hold s d)
  from c_hold.IH show ?case by (rule value_continuous_hold)
next
  case (c_hold_value s v d)
  from c_hold_value.IH c_hold_value.hyps(2) show ?case by (rule value_continuous_hold_value)
next
  case (c_rampTo s v d easeFn)
  from c_rampTo.IH show ?case by (rule value_continuous_rampTo)
next
  case (c_then_value s v d easeFn)
  from c_then_value.IH show ?case by (rule value_continuous_then_value)
next
  case (c_then_phrase s p)
  from c_then_phrase.IH show ?case by (rule value_continuous_then_phrase)
next
  case (c_ease s easeFn)
  from c_ease.IH show ?case by (rule value_continuous_ease)
qed

text \<open>
  Claim C5, as the code has it. In every sequence built from a seed value by a chain
  of \<^verbatim>\<open>hold( duration )\<close>, \<^verbatim>\<open>wait\<close>, \<^verbatim>\<open>rampTo\<close>, \<^verbatim>\<open>then\<close> (both forms) and \<^verbatim>\<open>ease\<close>,
  and of \<^verbatim>\<open>set\<close> and \<^verbatim>\<open>hold( value, duration )\<close> called on an empty phrase list or with
  the current end value, the end value of each phrase equals the start value of the
  next.
\<close>

theorem continuity_by_construction:
  assumes "continuing s" and "Suc i < length (phrases s)"
  shows "getEndValue (phrases s ! i) = getStartValue (phrases s ! Suc i)"
  using continuing_value_continuous [OF assms(1)] assms(2)
  by (simp add: value_continuous_def)

text \<open>A hold on a given value as first phrase, and the 5-second scenario.\<close>

theorem continuity_by_construction_witness:
  "getEndValue (phrases hold_first ! 0) = getStartValue (phrases hold_first ! Suc 0) \<and>
   getEndValue (phrases ramp_hold_ramp ! 1) = getStartValue (phrases ramp_hold_ramp ! Suc 1)"
proof -
  have "phrases (Sequence_value (0::real)) = [] \<or> (5::real) = endValue (Sequence_value 0)"
    by (simp add: Sequence_value_def)
  then have c1: "continuing hold_first"
    unfolding hold_first_def by (intro c_rampTo c_hold_value c_value)
  have i1: "Suc 0 < length (phrases hold_first)"
    by (simp add: hold_first_def build_defs)
  have c2: "continuing ramp_hold_ramp"
    unfolding ramp_hold_ramp_def by (intro c_rampTo c_hold c_value)
  have i2: "Suc 1 < length (phrases ramp_hold_ramp)"
    by (simp add: ramp_hold_ramp_phrases)
  from continuity_by_construction [OF c1 i1] continuity_by_construction [OF c2 i2]
  show ?thesis by simp
qed

text \<open>
  \<^verbatim>\<open>hold( value, duration )\<close> starts the new phrase at the value it is given: after a
  ramp to 10, a hold on 5 starts at 5.
\<close>

theorem continuity_by_construction_counterexample:
  "getPhraseCount jump_by_hold = 2 \<and>
   getEndValue (phrases jump_by_hold ! 0) \<noteq> getStartValue (phrases jump_by_hold ! 1)"
  by (simp add: jump_by_hold_def build_defs)

subsection \<open>Setting a value\<close>

text \<open>
  Claim C6, as the code has it. After \<^verbatim>\<open>Sequence<float> s(3.0f); s.set(7.0f);\<close> the
  sequence has no phrase, its initial value and its end value are 7, and \<^verbatim>\<open>getValue\<close>
  returns 7 at time -1 and at time 0: \<^verbatim>\<open>set\<close> on an empty phrase list overwrites the
  initial value.
\<close>

theorem set_on_empty_overwrites_initial:
  "getPhraseCount set_on_empty = 0 \<and> endValue set_on_empty = 7 \<and>
   getValue Phrase_getValue set_on_empty (-1) = 7 \<and>
   getValue Phrase_getValue set_on_empty 0 = 7 \<and>
   initialValue set_on_empty = 7"
  by (simp add: set_on_empty_def set_value_def Sequence_value_def getPhraseCount_def
      endValue_def getValue_def initialValue_def)

text \<open>The phrase count is 0, not 1, and the value at time -1 is 7, not 3.\<close>

theorem set_on_empty_counterexample:
  "\<not> (getPhraseCount set_on_empty = 1 \<and> endValue set_on_empty = 7 \<and>
      getValue Phrase_getValue set_on_empty (-1) = 3 \<and>
      getValue Phrase_getValue set_on_empty 0 = 7)"
  by (simp add: set_on_empty_def set_value_def Sequence_value_def getPhraseCount_def)

subsection \<open>The assertions of slice\<close>

text \<open>
  Claim C8, where the code departs from it. On the three phrases of the 5-second
  scenario, \<^verbatim>\<open>slice( 1, 0 )\<close> passes both assertions, so that an empty phrase vector
  goes to the constructor, which needs a last phrase. \<^verbatim>\<open>slice( 1, size )\<close> with
  \<open>size = 2 ^ 64 - 1\<close> passes both assertions too, although \<open>begin + size\<close> is greater
  than the phrase count: in \<^verbatim>\<open>size_t\<close> the sum wraps around to 0.
\<close>

theorem slice_assertions_pass:
  "getPhraseCount ramp_hold_ramp = 3 \<and>
   slice_assertions 1 0 ramp_hold_ramp \<and>
   slice_assertions 1 18446744073709551615 ramp_hold_ramp \<and>
   getPhraseCount ramp_hold_ramp < unat (1 :: 64 word) + unat (18446744073709551615 :: 64 word)"
  by (simp add: getPhraseCount_def slice_assertions_def ramp_hold_ramp_phrases)

subsection \<open>Replacing the blend function\<close>

text \<open>
  Claim C9. \<^verbatim>\<open>ease\<close> returns a sequence without phrases as it is. On a sequence with
  phrases it replaces the blend function of the last phrase and nothing else: all
  phrases before the last, and the start and end values and times of every phrase, the
  phrase count, the duration, the initial value and the end value are unchanged.
\<close>

theorem ease_frame:
  "(phrases s = [] \<longrightarrow> ease easeFn s = s) \<and>
   (phrases s \<noteq> [] \<longrightarrow>
      phrases (ease easeFn s) = butlast (phrases s) @ [(last (phrases s))\<lparr>motion := easeFn\<rparr>]) \<and>
   map Phrase_shape (phrases (ease easeFn s)) = map Phrase_shape (phrases s) \<and>
   getPhraseCount (ease easeFn s) = getPhraseCount s \<and>
   getDuration (ease easeFn s) = getDuration s \<and>
   initialValue (ease easeFn s) = initialValue s \<and>
   endValue (ease easeFn s) = endValue s"
proof (cases "phrases s = []")
  case True
  then show ?thesis by (simp add: ease_def)
next
  case False
  then obtain qs q where ps: "phrases s = qs @ [q]"
    by (metis append_butlast_last_id)
  have upd: "phrases (ease easeFn s) = qs @ [q\<lparr>motion := easeFn\<rparr>]"
    by (simp add: ease_def ps)
  show ?thesis
    by (simp add: upd ps Phrase_shape_def getStartValue_def getStartTime_def getEndValue_def
        getEndTime_def getPhraseCount_def endValue_def)
      (simp add: ease_def getDuration_def initialValue_def)
qed

theorem ease_frame_witness:
  "phrases (ease easeHold ramp_hold_ramp) =
     [\<lparr>start_value = 0, start_time = 0, end_value = 10, end_time = 2, motion = easeNone\<rparr>,
      \<lparr>start_value = 10, start_time = 2, end_value = 10, end_time = 3, motion = easeHold\<rparr>,
      \<lparr>start_value = 10, start_time = 3, end_value = 0, end_time = 5, motion = easeHold\<rparr>] \<and>
   ease easeHold (Sequence_value (3::real)) = Sequence_value 3"
  using ease_frame [of ramp_hold_ramp easeHold] ease_frame [of "Sequence_value (3::real)" easeHold]
  by (simp add: ramp_hold_ramp_phrases) (simp add: Sequence_value_def)

end
